theory Spec2Isabelle
  imports
    Complex_Main
    "HOL-Library.Char_ord"
    "HOL-Library.List_Lexorder"
    "HOL-Library.Option_ord"
    "HOL-Library.Product_Lexorder"
    "HOL-Library.Multiset"
    "HOL-Library.AList"
begin

section \<open>JavaScript values used by the screen\<close>

text \<open>
  A JavaScript number is modelled by its mathematical value: \<open>NaN\<close>, the two infinities, or
  an exact rational (every finite double is one). Rounding to the nearest double is not
  modelled; the sign of zero is not kept.
\<close>

datatype jsnum = NaN | NegInf | Fin rat | PosInf

definition isNaN :: "jsnum \<Rightarrow> bool" where
  "isNaN n = (n = NaN)"

text \<open>The relational operator \<open>a <= b\<close> on numbers: false as soon as one side is \<open>NaN\<close>.\<close>

fun js_le :: "jsnum \<Rightarrow> jsnum \<Rightarrow> bool" where
  "js_le NaN b = False"
| "js_le a NaN = False"
| "js_le NegInf b = True"
| "js_le a PosInf = True"
| "js_le (Fin x) (Fin y) = (x \<le> y)"
| "js_le a b = False"

text \<open>Truthiness of a number: \<open>NaN\<close> and zero are falsy.\<close>

fun truthy_num :: "jsnum \<Rightarrow> bool" where
  "truthy_num NaN = False"
| "truthy_num (Fin x) = (x \<noteq> 0)"
| "truthy_num n = True"

text \<open>The operator \<open>+\<close> on two numbers.\<close>

fun js_add :: "jsnum \<Rightarrow> jsnum \<Rightarrow> jsnum" where
  "js_add NaN b = NaN"
| "js_add a NaN = NaN"
| "js_add (Fin x) (Fin y) = Fin (x + y)"
| "js_add PosInf NegInf = NaN"
| "js_add NegInf PosInf = NaN"
| "js_add PosInf b = PosInf"
| "js_add a PosInf = PosInf"
| "js_add NegInf b = NegInf"
| "js_add a NegInf = NegInf"

text \<open>
  With \<open>+\<close> as above and zero as \<open>Fin 0\<close> the numbers form a commutative monoid, so that
  sums over lists and multisets of numbers are available.
\<close>

instantiation jsnum :: comm_monoid_add
begin

definition zero_jsnum :: jsnum where
  "zero_jsnum = Fin 0"

definition plus_jsnum :: "jsnum \<Rightarrow> jsnum \<Rightarrow> jsnum" where
  "plus_jsnum a b = js_add a b"

instance
proof
  fix a b c :: jsnum
  show "a + b + c = a + (b + c)"
    unfolding plus_jsnum_def by (cases a; cases b; cases c) simp_all
  show "a + b = b + a"
    unfolding plus_jsnum_def by (cases a; cases b) simp_all
  show "0 + a = a"
    unfolding plus_jsnum_def zero_jsnum_def by (cases a) simp_all
qed

end

subsection \<open>Strings\<close>

text \<open>
  Strings are lists of 8-bit characters. \<open>String.prototype.trim\<close> and the numeric parsers
  strip white space and line terminators; over this alphabet these are the six control and
  blank characters below.
\<close>

definition is_ws :: "char \<Rightarrow> bool" where
  "is_ws c = (c \<in> set [CHR 0x09, CHR 0x0A, CHR 0x0B, CHR 0x0C, CHR 0x0D, CHR 0x20])"

definition trim :: "string \<Rightarrow> string" where
  "trim s = rev (dropWhile is_ws (rev (dropWhile is_ws s)))"

definition is_digit :: "char \<Rightarrow> bool" where
  "is_digit c = (c \<in> set ''0123456789'')"

definition digit_val :: "char \<Rightarrow> nat" where
  "digit_val c = of_char c - 48"

definition dec_val :: "string \<Rightarrow> nat" where
  "dec_val ds = foldl (\<lambda>n c. 10 * n + digit_val c) 0 ds"

subsection \<open>The global function parseFloat\<close>

text \<open>
  \<open>parseFloat\<close> skips leading white space and reads the longest prefix that is a decimal
  literal: an optional sign, then \<open>Infinity\<close> or digits with an optional fraction and an
  optional exponent. With no such prefix the result is \<open>NaN\<close>.
\<close>

definition parse_sign :: "string \<Rightarrow> int \<times> string" where
  "parse_sign s =
     (case s of
        [] \<Rightarrow> (1, s)
      | c # r \<Rightarrow> if c = CHR ''-'' then (- 1, r) else if c = CHR ''+'' then (1, r) else (1, s))"

definition parse_exponent :: "string \<Rightarrow> int" where
  "parse_exponent s =
     (case s of
        [] \<Rightarrow> 0
      | c # r \<Rightarrow>
          if c = CHR ''e'' \<or> c = CHR ''E'' then
            (let sg = fst (parse_sign r); ds = takeWhile is_digit (snd (parse_sign r))
             in if ds = [] then 0 else sg * int (dec_val ds))
          else 0)"

definition pow10 :: "int \<Rightarrow> rat" where
  "pow10 e = (if 0 \<le> e then 10 ^ nat e else 1 / 10 ^ nat (- e))"

definition parseFloat :: "string \<Rightarrow> jsnum" where
  "parseFloat s =
     (let t = dropWhile is_ws s; sg = fst (parse_sign t); u = snd (parse_sign t)
      in if take 8 u = ''Infinity'' then (if sg < 0 then NegInf else PosInf)
         else
           (let ip = takeWhile is_digit u;
                r1 = dropWhile is_digit u;
                dot = (r1 \<noteq> [] \<and> hd r1 = CHR ''.'');
                fp = (if dot then takeWhile is_digit (tl r1) else []);
                r2 = (if dot then dropWhile is_digit (tl r1) else r1)
            in if ip = [] \<and> fp = [] then NaN
               else Fin (of_int sg * (of_nat (dec_val (ip @ fp)) / 10 ^ length fp)
                         * pow10 (parse_exponent r2))))"

section \<open>The expenses table\<close>

text \<open>
  A row of the table \<open>expenses\<close> as \<open>getAllAsync\<close> hands it to the screen. The field
  \<open>e_amount\<close> is the value of \<open>Number(e.amount)\<close> (\<open>NaN\<close> for a value that is not numeric);
  the text columns may be \<open>null\<close> in a row object, which is \<open>None\<close>.
\<close>

record expense =
  e_id :: int
  e_amount :: jsnum
  e_category :: "string option"
  e_note :: "string option"
  e_date :: "string option"

text \<open>
  The store: the rows, and the largest row id handed out so far
  (\<open>INTEGER PRIMARY KEY AUTOINCREMENT\<close> never reuses an id).
\<close>

record database =
  rows :: "expense list"
  seq :: int

text \<open>\<open>INSERT INTO expenses (amount, category, note, date) VALUES (?, ?, ?, ?)\<close>\<close>

definition sql_insert :: "jsnum \<Rightarrow> string \<Rightarrow> string option \<Rightarrow> string \<Rightarrow> database \<Rightarrow> database" where
  "sql_insert a c n d dbs =
     (let i = fold max (map e_id (rows dbs)) (seq dbs) + 1
      in \<lparr>rows = rows dbs @ [\<lparr>e_id = i, e_amount = a, e_category = Some c, e_note = n,
                                e_date = Some d\<rparr>],
          seq = i\<rparr>)"

text \<open>\<open>UPDATE expenses SET amount = ?, category = ?, note = ? WHERE id = ?\<close>\<close>

definition sql_update :: "jsnum \<Rightarrow> string \<Rightarrow> string option \<Rightarrow> int \<Rightarrow> database \<Rightarrow> database" where
  "sql_update a c n i dbs =
     dbs\<lparr>rows := map (\<lambda>e. if e_id e = i
                            then e\<lparr>e_amount := a, e_category := Some c, e_note := n\<rparr>
                            else e) (rows dbs)\<rparr>"

text \<open>\<open>DELETE FROM expenses WHERE id = ?\<close>\<close>

definition sql_delete :: "int \<Rightarrow> database \<Rightarrow> database" where
  "sql_delete i dbs = dbs\<lparr>rows := filter (\<lambda>e. e_id e \<noteq> i) (rows dbs)\<rparr>"

text \<open>
  \<open>SELECT * FROM expenses ORDER BY date DESC, id DESC\<close>: text compares bytewise, a shorter
  string before its extensions, and \<open>NULL\<close> below every string.
\<close>

definition sort_key_of :: "expense \<Rightarrow> string option \<times> int" where
  "sort_key_of e = (e_date e, e_id e)"

definition sql_select_all :: "database \<Rightarrow> expense list" where
  "sql_select_all dbs = rev (sort_key sort_key_of (rows dbs))"

section \<open>The runtime: clock, time zone, calendar\<close>

text \<open>
  What the screen reads from its environment: the clock (milliseconds since the epoch, UTC),
  the offset of local time from UTC in minutes (positive east of Greenwich, taken as constant:
  daylight saving changes are not modelled), and the engine's conversion of a number to a
  string, which is left open.
\<close>

record runtime =
  now :: int
  utcOffset :: int
  numToString :: "jsnum \<Rightarrow> string"

definition msPerDay :: int where
  "msPerDay = 86400000"

definition tzms :: "runtime \<Rightarrow> int" where
  "tzms rt = utcOffset rt * 60000"

text \<open>
  The proleptic Gregorian calendar of the language standard: the day number (days since
  1970-01-01) of a year, month (1 to 12) and day of the month, and back.
\<close>

definition days_from_civil :: "int \<Rightarrow> int \<Rightarrow> int \<Rightarrow> int" where
  "days_from_civil y m d =
     (let y' = (if m \<le> 2 then y - 1 else y);
          era = y' div 400;
          yoe = y' - era * 400;
          mp = (m + 9) mod 12;
          doy = (153 * mp + 2) div 5 + d - 1;
          doe = yoe * 365 + yoe div 4 - yoe div 100 + doy
      in era * 146097 + doe - 719468)"

definition civil_from_days :: "int \<Rightarrow> int \<times> int \<times> int" where
  "civil_from_days z0 =
     (let z = z0 + 719468;
          era = z div 146097;
          doe = z - era * 146097;
          yoe = (doe - doe div 1460 + doe div 36524 - doe div 146096) div 365;
          doy = doe - (365 * yoe + yoe div 4 - yoe div 100);
          mp = (5 * doy + 2) div 153;
          d = doy - (153 * mp + 2) div 5 + 1;
          m = (if mp < 10 then mp + 3 else mp - 9);
          y = yoe + era * 400
      in (if m \<le> 2 then y + 1 else y, m, d))"

definition is_leap :: "int \<Rightarrow> bool" where
  "is_leap y = (y mod 4 = 0 \<and> (y mod 100 \<noteq> 0 \<or> y mod 400 = 0))"

definition days_in_month :: "int \<Rightarrow> int \<Rightarrow> int" where
  "days_in_month y m =
     (if m = 2 then (if is_leap y then 29 else 28)
      else if m = 4 \<or> m = 6 \<or> m = 9 \<or> m = 11 then 30 else 31)"

subsection \<open>Parts of a day number\<close>

text \<open>
  Auxiliary notions for reasoning about the calendar: the position of a day within its
  era of 400 years, and the months of a year that starts in March as a table.
\<close>

text \<open>A day of a 400-year era, split into century, four-year cycle, year and day of year.\<close>

definition era_day :: "int \<Rightarrow> int \<Rightarrow> int \<Rightarrow> int \<Rightarrow> int" where
  "era_day c q a doy = 36524 * c + 1461 * q + 365 * a + doy"

definition era_split :: "int \<Rightarrow> int \<Rightarrow> int \<Rightarrow> int \<Rightarrow> bool" where
  "era_split c q a doy =
     (0 \<le> c \<and> c \<le> 3 \<and> 0 \<le> q \<and> q \<le> 24 \<and> 0 \<le> a \<and> a \<le> 3 \<and> 0 \<le> doy \<and> doy \<le> 365
      \<and> (doy = 365 \<longrightarrow> a = 3) \<and> (doy = 365 \<and> q = 24 \<longrightarrow> c = 3))"

text \<open>The month and the day of the month from the day of a year that starts in March.\<close>

definition month_day :: "int \<Rightarrow> int \<times> int" where
  "month_day doy =
     (let mp = (5 * doy + 2) div 153
      in (if mp < 10 then mp + 3 else mp - 9, doy - (153 * mp + 2) div 5 + 1))"

definition month_table :: "int \<Rightarrow> int \<times> int" where
  "month_table doy =
     (if doy < 31 then (3, doy + 1)
      else if doy < 61 then (4, doy - 30)
      else if doy < 92 then (5, doy - 60)
      else if doy < 122 then (6, doy - 91)
      else if doy < 153 then (7, doy - 121)
      else if doy < 184 then (8, doy - 152)
      else if doy < 214 then (9, doy - 183)
      else if doy < 245 then (10, doy - 213)
      else if doy < 275 then (11, doy - 244)
      else if doy < 306 then (12, doy - 274)
      else if doy < 337 then (1, doy - 305)
      else (2, doy - 336))"

subsection \<open>Date objects\<close>

text \<open>
  A valid \<open>Date\<close> is its time value; the getters and setters used by the screen work in local
  time.
\<close>

definition localDay :: "runtime \<Rightarrow> int \<Rightarrow> int" where
  "localDay rt t = (t + tzms rt) div msPerDay"

definition getFullYear :: "runtime \<Rightarrow> int \<Rightarrow> int" where
  "getFullYear rt t = fst (civil_from_days (localDay rt t))"

definition getMonth :: "runtime \<Rightarrow> int \<Rightarrow> int" where
  "getMonth rt t = fst (snd (civil_from_days (localDay rt t))) - 1"

definition getDate :: "runtime \<Rightarrow> int \<Rightarrow> int" where
  "getDate rt t = snd (snd (civil_from_days (localDay rt t)))"

definition getDay :: "runtime \<Rightarrow> int \<Rightarrow> int" where
  "getDay rt t = (localDay rt t + 4) mod 7"

definition setHours :: "runtime \<Rightarrow> int \<Rightarrow> int \<Rightarrow> int \<Rightarrow> int \<Rightarrow> int \<Rightarrow> int" where
  "setHours rt t h mi s ms =
     localDay rt t * msPerDay + (h * 3600000 + mi * 60000 + s * 1000 + ms) - tzms rt"

definition setDate :: "runtime \<Rightarrow> int \<Rightarrow> int \<Rightarrow> int" where
  "setDate rt t n =
     (let y = getFullYear rt t; m = getMonth rt t + 1
      in (days_from_civil y m 1 + n - 1) * msPerDay + (t + tzms rt) mod msPerDay - tzms rt)"

text \<open>
  \<open>new Date(string)\<close> for the date-only form \<open>YYYY-MM-DD\<close>, which denotes midnight UTC of
  that day. Any other string counts as unparseable here (\<open>None\<close> is the invalid date); the
  screen itself only ever writes the date-only form.
\<close>

definition date_fields :: "string \<Rightarrow> (int \<times> int \<times> int) option" where
  "date_fields s =
     (if length s = 10 \<and> s ! 4 = CHR ''-'' \<and> s ! 7 = CHR ''-''
         \<and> list_all is_digit (take 4 s) \<and> list_all is_digit (take 2 (drop 5 s))
         \<and> list_all is_digit (drop 8 s)
      then
        (let y = int (dec_val (take 4 s));
             m = int (dec_val (take 2 (drop 5 s)));
             d = int (dec_val (drop 8 s))
         in if 1 \<le> m \<and> m \<le> 12 \<and> 1 \<le> d \<and> d \<le> days_in_month y m
            then Some (y, m, d) else None)
      else None)"

definition parseDate :: "string \<Rightarrow> int option" where
  "parseDate s =
     (case date_fields s of
        None \<Rightarrow> None
      | Some (y, m, d) \<Rightarrow> Some (days_from_civil y m d * msPerDay))"

text \<open>The UTC calendar date (year, month, day of the month) of a time value.\<close>

definition utc_date :: "int \<Rightarrow> int \<times> int \<times> int" where
  "utc_date t = civil_from_days (t div msPerDay)"

text \<open>\<open>Date.prototype.toISOString\<close>: the UTC fields, the year with four digits when it has
  no more, otherwise signed with six.\<close>

definition digit_char :: "int \<Rightarrow> char" where
  "digit_char d = ''0123456789'' ! nat d"

definition pad :: "nat \<Rightarrow> int \<Rightarrow> string" where
  "pad n v = map (\<lambda>i. digit_char ((v div 10 ^ i) mod 10)) (rev [0..<n])"

definition toISOString :: "int \<Rightarrow> string" where
  "toISOString t =
     (let y = fst (utc_date t);
          m = fst (snd (utc_date t));
          d = snd (snd (utc_date t));
          tod = t mod msPerDay
      in (if 0 \<le> y \<and> y \<le> 9999 then pad 4 y
          else (if y < 0 then ''-'' else ''+'') @ pad 6 \<bar>y\<bar>)
         @ ''-'' @ pad 2 m @ ''-'' @ pad 2 d
         @ ''T'' @ pad 2 (tod div 3600000) @ '':'' @ pad 2 (tod div 60000 mod 60)
         @ '':'' @ pad 2 (tod div 1000 mod 60) @ ''.'' @ pad 3 (tod mod 1000) @ ''Z'')"


section \<open>The screen's state and its command handlers\<close>

datatype filter_sel = All | Week | Month

text \<open>The component's state hooks, together with the store the handlers write to.\<close>

record state =
  db :: database
  expenses :: "expense list"
  amount :: string
  category :: string
  note_st :: string
  filter_st :: filter_sel
  editingId :: "int option"

definition loadExpenses :: "state \<Rightarrow> state" where
  "loadExpenses s = s\<lparr>expenses := sql_select_all (db s)\<rparr>"

definition getTodayDateString :: "runtime \<Rightarrow> string" where
  "getTodayDateString rt = take 10 (toISOString (now rt))"

text \<open>\<open>trimmedNote || null\<close>\<close>

definition or_null :: "string \<Rightarrow> string option" where
  "or_null s = (if s = [] then None else Some s)"

definition addExpense :: "runtime \<Rightarrow> state \<Rightarrow> state" where
  "addExpense rt s =
     (let amountNumber = parseFloat (amount s)
      in if isNaN amountNumber \<or> js_le amountNumber (Fin 0) then s
         else
           (let trimmedCategory = trim (category s); trimmedNote = trim (note_st s)
            in if trimmedCategory = [] then s
               else
                 (let today = getTodayDateString rt;
                      s1 = s\<lparr>db := sql_insert amountNumber trimmedCategory (or_null trimmedNote)
                                     today (db s)\<rparr>;
                      s2 = s1\<lparr>amount := [], category := [], note_st := []\<rparr>
                  in loadExpenses s2)))"

text \<open>\<open>!editingId\<close> holds for \<open>null\<close> and for the id 0.\<close>

definition saveEdit :: "state \<Rightarrow> state" where
  "saveEdit s =
     (let amountNumber = parseFloat (amount s)
      in if isNaN amountNumber \<or> js_le amountNumber (Fin 0) then s
         else
           (let trimmedCategory = trim (category s); trimmedNote = trim (note_st s)
            in if trimmedCategory = [] then s
               else
                 (case editingId s of
                    None \<Rightarrow> s
                  | Some i \<Rightarrow>
                      if i = 0 then s
                      else
                        (let s1 = s\<lparr>db := sql_update amountNumber trimmedCategory
                                            (or_null trimmedNote) i (db s)\<rparr>;
                             s2 = s1\<lparr>editingId := None, amount := [], category := [],
                                     note_st := []\<rparr>
                         in loadExpenses s2))))"

definition cancelEdit :: "state \<Rightarrow> state" where
  "cancelEdit s = s\<lparr>editingId := None, amount := [], category := [], note_st := []\<rparr>"

definition deleteExpense :: "int \<Rightarrow> state \<Rightarrow> state" where
  "deleteExpense i s = loadExpenses (s\<lparr>db := sql_delete i (db s)\<rparr>)"

text \<open>\<open>item.note || ''\<close>\<close>

definition startEditing :: "runtime \<Rightarrow> expense \<Rightarrow> state \<Rightarrow> state" where
  "startEditing rt item s =
     s\<lparr>editingId := Some (e_id item),
       amount := numToString rt (e_amount item),
       category := (case e_category item of None \<Rightarrow> [] | Some c \<Rightarrow> c),
       note_st := (case e_note item of None \<Rightarrow> [] | Some n \<Rightarrow> n)\<rparr>"

section \<open>Filtering and aggregation\<close>

text \<open>
  The memoised value \<open>filteredExpenses\<close>, as a function of the runtime, the selector and the
  loaded rows. \<open>!e.date\<close> holds for \<open>null\<close> and for the empty string; an invalid date fails
  every comparison.
\<close>

definition filteredExpenses :: "runtime \<Rightarrow> filter_sel \<Rightarrow> expense list \<Rightarrow> expense list" where
  "filteredExpenses rt f es =
     (case f of
        All \<Rightarrow> es
      | Month \<Rightarrow>
          (let today = setHours rt (now rt) 0 0 0 0;
               month = getMonth rt today;
               year = getFullYear rt today
           in filter (\<lambda>e. case e_date e of
                              None \<Rightarrow> False
                            | Some ds \<Rightarrow>
                                ds \<noteq> [] \<and>
                                (case parseDate ds of
                                   None \<Rightarrow> False
                                 | Some d \<Rightarrow> getFullYear rt d = year \<and> getMonth rt d = month))
                es)
      | Week \<Rightarrow>
          (let today = setHours rt (now rt) 0 0 0 0;
               day = getDay rt today;
               diffToMonday = (day + 6) mod 7;
               startOfWeek =
                 setHours rt (setDate rt today (getDate rt today - diffToMonday)) 0 0 0 0;
               endOfWeek =
                 setHours rt (setDate rt startOfWeek (getDate rt startOfWeek + 6)) 23 59 59 999
           in filter (\<lambda>e. case e_date e of
                              None \<Rightarrow> False
                            | Some ds \<Rightarrow>
                                ds \<noteq> [] \<and>
                                (case parseDate ds of
                                   None \<Rightarrow> False
                                 | Some d0 \<Rightarrow>
                                     (let d = setHours rt d0 0 0 0 0
                                      in startOfWeek \<le> d \<and> d \<le> endOfWeek)))
                es))"

subsection \<open>The time windows in calendar terms\<close>

text \<open>
  For stating what the filters select: the day number of a row's date, the Monday on or
  before a day (day 0, 1970-01-01, was a Thursday), and the number of whole days by which
  midnight UTC is moved when it is read in local time (0 at and east of Greenwich, \<open>-1\<close>
  west of it).
\<close>

definition date_day :: "expense \<Rightarrow> int option" where
  "date_day e =
     (case e_date e of
        None \<Rightarrow> None
      | Some ds \<Rightarrow>
          (case date_fields ds of None \<Rightarrow> None | Some (y, m, d) \<Rightarrow> Some (days_from_civil y m d)))"

definition week_start :: "int \<Rightarrow> int" where
  "week_start T = T - (T + 3) mod 7"

definition zone_shift :: "runtime \<Rightarrow> int" where
  "zone_shift rt = tzms rt div msPerDay"

text \<open>\<open>Number(e.amount) || 0\<close>\<close>

definition or_zero :: "jsnum \<Rightarrow> jsnum" where
  "or_zero n = (if truthy_num n then n else Fin 0)"

text \<open>\<open>filteredExpenses.reduce((sum, e) => sum + (Number(e.amount) || 0), 0)\<close>\<close>

definition overallTotal :: "expense list \<Rightarrow> jsnum" where
  "overallTotal fes = foldl (\<lambda>sum e. js_add sum (or_zero (e_amount e))) (Fin 0) fes"

subsection \<open>The object totals\<close>

text \<open>
  \<open>totals\<close> starts as the object literal \<open>{}\<close>: it has no property of its own and inherits
  those of \<open>Object.prototype\<close>. A property read in the loop yields a number, a string (one
  arises when \<open>+\<close> meets a function or an object; its characters are not modelled), a
  function or an object.
\<close>

datatype propval = PNum jsnum | PStr | PFun | PObj

type_synonym object = "(string \<times> propval) list"

text \<open>
  The properties of \<open>Object.prototype\<close>: its methods, and the accessor \<open>__proto__\<close> whose
  getter returns the prototype object.
\<close>

definition object_prototype :: "string \<Rightarrow> propval option" where
  "object_prototype k =
     (if k = ''__proto__'' then Some PObj
      else if k \<in> set [''constructor'', ''hasOwnProperty'', ''isPrototypeOf'',
                        ''propertyIsEnumerable'', ''toLocaleString'', ''toString'', ''valueOf'',
                        ''__defineGetter__'', ''__defineSetter__'', ''__lookupGetter__'',
                        ''__lookupSetter__'']
      then Some PFun
      else None)"

text \<open>\<open>obj[k]\<close>: an own property first, then the prototype; \<open>None\<close> is \<open>undefined\<close>.\<close>

definition get_prop :: "object \<Rightarrow> string \<Rightarrow> propval option" where
  "get_prop obj k = (case map_of obj k of Some v \<Rightarrow> Some v | None \<Rightarrow> object_prototype k)"

text \<open>
  \<open>obj[k] = v\<close> for a number or a string \<open>v\<close>: an own property is written or created,
  except under the key \<open>__proto__\<close>, where the inherited setter is called and ignores a value
  that is neither an object nor \<open>null\<close>.
\<close>

definition set_prop :: "object \<Rightarrow> string \<Rightarrow> propval \<Rightarrow> object" where
  "set_prop obj k v = (if k = ''__proto__'' then obj else AList.update k v obj)"

definition truthy_prop :: "propval option \<Rightarrow> bool" where
  "truthy_prop v = (case v of None \<Rightarrow> False | Some (PNum n) \<Rightarrow> truthy_num n | Some _ \<Rightarrow> True)"

text \<open>\<open>v + amount\<close> for a number \<open>amount\<close>: addition of numbers, otherwise a string.\<close>

definition plus_number :: "propval option \<Rightarrow> jsnum \<Rightarrow> propval" where
  "plus_number v a =
     (case v of None \<Rightarrow> PNum NaN | Some (PNum n) \<Rightarrow> PNum (js_add n a) | Some _ \<Rightarrow> PStr)"

text \<open>\<open>e.category || 'Uncategorized'\<close>\<close>

definition category_of :: "expense \<Rightarrow> string" where
  "category_of e =
     (case e_category e of None \<Rightarrow> ''Uncategorized''
      | Some c \<Rightarrow> if c = [] then ''Uncategorized'' else c)"

text \<open>One turn of the loop over \<open>filteredExpenses\<close>.\<close>

definition add_to_totals :: "object \<Rightarrow> expense \<Rightarrow> object" where
  "add_to_totals totals e =
     (let cat = category_of e;
          amount = or_zero (e_amount e);
          totals1 = (if truthy_prop (get_prop totals cat) then totals
                     else set_prop totals cat (PNum (Fin 0)))
      in set_prop totals1 cat (plus_number (get_prop totals1 cat) amount))"

definition categoryTotals :: "expense list \<Rightarrow> object" where
  "categoryTotals fes = foldl add_to_totals [] fes"

text \<open>
  For stating what the totals hold: the sum of the amounts of one category, and the sum of
  the values of an object (a value that is not a number counts as \<open>NaN\<close>).
\<close>

definition category_sum :: "string \<Rightarrow> expense list \<Rightarrow> jsnum" where
  "category_sum c fes = (\<Sum>e\<leftarrow>filter (\<lambda>e. category_of e = c) fes. or_zero (e_amount e))"

definition prop_num :: "propval \<Rightarrow> jsnum" where
  "prop_num v = (case v of PNum n \<Rightarrow> n | _ \<Rightarrow> NaN)"

definition values_sum :: "object \<Rightarrow> jsnum" where
  "values_sum obj = (\<Sum>kv\<leftarrow>obj. prop_num (snd kv))"

definition totalLabel :: "filter_sel \<Rightarrow> string" where
  "totalLabel f =
     (if f = Week then ''Total This Week''
      else if f = Month then ''Total This Month''
      else ''All Time Total'')"

section \<open>Runs of the screen\<close>

text \<open>
  What the user can do: type into the three inputs, press the form's buttons, press a row's
  edit or delete control, choose a filter. The first render runs the effect that loads the
  rows once.
\<close>

datatype command =
    TypeAmount string
  | TypeCategory string
  | TypeNote string
  | PressAdd
  | PressSave
  | PressCancel
  | PressEdit expense
  | PressDelete int
  | PressFilter filter_sel

fun step :: "runtime \<Rightarrow> command \<Rightarrow> state \<Rightarrow> state" where
  "step rt (TypeAmount t) s = s\<lparr>amount := t\<rparr>"
| "step rt (TypeCategory t) s = s\<lparr>category := t\<rparr>"
| "step rt (TypeNote t) s = s\<lparr>note_st := t\<rparr>"
| "step rt PressAdd s = addExpense rt s"
| "step rt PressSave s = saveEdit s"
| "step rt PressCancel s = cancelEdit s"
| "step rt (PressEdit item) s = startEditing rt item s"
| "step rt (PressDelete i) s = deleteExpense i s"
| "step rt (PressFilter f) s = s\<lparr>filter_st := f\<rparr>"

text \<open>Each command comes with the runtime as it is when the command is handled.\<close>

definition run :: "(runtime \<times> command) list \<Rightarrow> state \<Rightarrow> state" where
  "run cs s = foldl (\<lambda>s' (rt, c). step rt c s') s cs"

definition mount :: "database \<Rightarrow> state" where
  "mount dbs =
     loadExpenses \<lparr>db = dbs, expenses = [], amount = [], category = [], note_st = [],
                   filter_st = All, editingId = None\<rparr>"

section \<open>Sample data\<close>

text \<open>
  Two clock readings in a zone five hours west of Greenwich: Monday 2025-03-03 and Saturday
  2025-03-01, both at 10:00 local time (15:00 UTC); and the Monday reading on UTC itself.
\<close>

definition rt_monday_west :: runtime where
  "rt_monday_west = \<lparr>now = 1741014000000, utcOffset = - 300, numToString = (\<lambda>n. [])\<rparr>"

definition rt_first_west :: runtime where
  "rt_first_west = \<lparr>now = 1740841200000, utcOffset = - 300, numToString = (\<lambda>n. [])\<rparr>"

definition rt_monday_utc :: runtime where
  "rt_monday_utc = \<lparr>now = 1741014000000, utcOffset = 0, numToString = (\<lambda>n. [])\<rparr>"

definition lunch :: expense where
  "lunch = \<lparr>e_id = 1, e_amount = Fin 10, e_category = Some ''Food'', e_note = Some ''lunch'',
            e_date = Some ''2025-03-03''\<rparr>"

definition books :: expense where
  "books = \<lparr>e_id = 2, e_amount = Fin 5, e_category = Some ''Books'', e_note = None,
            e_date = Some ''2025-03-01''\<rparr>"

definition ctor_expense :: expense where
  "ctor_expense = \<lparr>e_id = 3, e_amount = Fin (25 / 2), e_category = Some ''constructor'',
                   e_note = None, e_date = Some ''2025-03-03''\<rparr>"

definition proto_expense :: expense where
  "proto_expense = \<lparr>e_id = 4, e_amount = Fin (25 / 2), e_category = Some ''__proto__'',
                    e_note = None, e_date = Some ''2025-03-03''\<rparr>"

definition april_first :: expense where
  "april_first = \<lparr>e_id = 5, e_amount = Fin 7, e_category = Some ''Rent'', e_note = None,
                  e_date = Some ''2025-04-01''\<rparr>"

definition sample_db :: database where
  "sample_db = \<lparr>rows = [lunch, books], seq = 2\<rparr>"

text \<open>A form state over the sample store: the three inputs and the editing pointer.\<close>

definition form :: "string \<Rightarrow> string \<Rightarrow> string \<Rightarrow> int option \<Rightarrow> state" where
  "form a c n ed =
     \<lparr>db = sample_db, expenses = [lunch, books], amount = a, category = c, note_st = n,
      filter_st = All, editingId = ed\<rparr>"

section \<open>The calendar\<close>

text \<open>
  The two calendar functions are inverse to each other on the dates that exist, and a day
  number always yields such a date.
\<close>

lemma div_between:
  fixes x b k :: int
  assumes "b * k \<le> x" and "x < b * k + b"
  shows "x div b = k"
proof -
  have "x = b * k + (x - b * k)"
    by simp
  moreover have "0 \<le> x - b * k" and "x - b * k < b"
    using assms by simp_all
  ultimately show ?thesis
    by (metis int_div_pos_eq)
qed

lemma div_bounds:
  fixes x b :: int
  assumes "0 < b"
  shows "b * (x div b) \<le> x" and "x < b * (x div b) + b"
proof -
  have "x = b * (x div b) + x mod b"
    by simp
  moreover have "0 \<le> x mod b" and "x mod b < b"
    using assms by simp_all
  ultimately show "b * (x div b) \<le> x" and "x < b * (x div b) + b"
    by linarith+
qed

lemma yoe_of_era_day:
  assumes "era_split c q a doy"
  shows "(era_day c q a doy - era_day c q a doy div 1460 + era_day c q a doy div 36524
            - era_day c q a doy div 146096) div 365 = 100 * c + 4 * q + a"
proof (cases "q = 24 \<and> a = 3 \<and> doy = 365")
  case True
  then have "c = 3"
    using assms by (simp add: era_split_def)
  with True show ?thesis
    by (simp add: era_day_def)
next
  case False
  define doe where "doe = era_day c q a doy"
  define low where "low = 24 * c + q + 365 * a + doy"
  have b: "0 \<le> c" "c \<le> 3" "0 \<le> q" "q \<le> 24" "0 \<le> a" "a \<le> 3" "0 \<le> doy" "doy \<le> 365"
    using assms by (simp_all add: era_split_def)
  have e: "doy = 365 \<longrightarrow> a = 3"
    using assms by (simp add: era_split_def)
  have lt: "1461 * q + 365 * a + doy < 36524"
  proof (cases "doy = 365")
    case True
    with e False have "a = 3" and "q \<le> 23"
      using b by auto
    with True show ?thesis
      by simp
  next
    case False
    then have "doy \<le> 364"
      using b by simp
    then show ?thesis
      using b by linarith
  qed
  have d3: "doe div 146096 = 0"
    using b lt by (intro div_between) (simp_all add: doe_def era_day_def)
  have d2: "doe div 36524 = c"
    using b lt by (intro div_between) (simp_all add: doe_def era_day_def)
  show ?thesis
  proof (cases "1460 \<le> low")
    case True
    have d1: "doe div 1460 = 25 * c + q + 1"
      using b True by (intro div_between) (simp_all add: doe_def era_day_def low_def)
    have "1 \<le> doy"
      using b True by (simp add: low_def)
    then have "(doe - (25 * c + q + 1) + c - 0) div 365 = 100 * c + 4 * q + a"
      using b by (intro div_between) (simp_all add: doe_def era_day_def)
    then show ?thesis
      by (simp add: d1 d2 d3 doe_def [symmetric])
  next
    case False
    have d1: "doe div 1460 = 25 * c + q"
      using b False by (intro div_between) (simp_all add: doe_def era_day_def low_def)
    have "doy \<le> 364"
      using b e False by (cases "doy = 365") (simp_all add: low_def)
    then have "(doe - (25 * c + q) + c - 0) div 365 = 100 * c + 4 * q + a"
      using b by (intro div_between) (simp_all add: doe_def era_day_def)
    then show ?thesis
      by (simp add: d1 d2 d3 doe_def [symmetric])
  qed
qed

lemma era_day_bounds:
  assumes "era_split c q a doy"
  shows "0 \<le> era_day c q a doy" and "era_day c q a doy < 146097"
proof -
  have b: "0 \<le> c" "c \<le> 3" "0 \<le> q" "q \<le> 24" "0 \<le> a" "a \<le> 3" "0 \<le> doy" "doy \<le> 365"
    using assms by (simp_all add: era_split_def)
  show "0 \<le> era_day c q a doy" and "era_day c q a doy < 146097"
    using b by (simp_all add: era_day_def)
qed

lemma year_of_era_parts:
  assumes "era_split c q a doy"
  shows "(100 * c + 4 * q + a) div 4 = 25 * c + q"
    and "(100 * c + 4 * q + a) div 100 = c"
    and "(100 * c + 4 * q + a + era * 400) div 400 = era"
proof -
  have b: "0 \<le> c" "c \<le> 3" "0 \<le> q" "q \<le> 24" "0 \<le> a" "a \<le> 3"
    using assms by (simp_all add: era_split_def)
  show "(100 * c + 4 * q + a) div 4 = 25 * c + q"
    using b by (intro div_between) simp_all
  show "(100 * c + 4 * q + a) div 100 = c"
    using b by (intro div_between) simp_all
  show "(100 * c + 4 * q + a + era * 400) div 400 = era"
    using b by (intro div_between) simp_all
qed

lemma era_split_exists:
  assumes "0 \<le> doe" and "doe < 146097"
  shows "\<exists>c q a doy. era_split c q a doy \<and> doe = era_day c q a doy"
proof -
  define c where "c = min 3 (doe div 36524)"
  define r1 where "r1 = doe - 36524 * c"
  define q where "q = r1 div 1461"
  define r2 where "r2 = r1 - 1461 * q"
  define a where "a = min 3 (r2 div 365)"
  define doy where "doy = r2 - 365 * a"
  note dc = div_bounds [of 36524 doe]
  have c: "0 \<le> c" "c \<le> 3"
    using assms dc by (simp_all add: c_def)
  have r1: "0 \<le> r1" "r1 \<le> 36524" "r1 = 36524 \<longrightarrow> c = 3"
    using assms dc by (auto simp: r1_def c_def min_def)
  note dq = div_bounds [of 1461 r1]
  have q: "0 \<le> q" "q \<le> 24"
    using r1 dq by (simp_all add: q_def)
  have r2: "0 \<le> r2" "r2 \<le> 1460" "q = 24 \<and> r2 = 1460 \<longrightarrow> r1 = 36524"
    using dq by (auto simp: r2_def q_def)
  note da = div_bounds [of 365 r2]
  have a: "0 \<le> a" "a \<le> 3"
    using r2 da by (simp_all add: a_def)
  have doy: "0 \<le> doy" "doy \<le> 365" "doy = 365 \<longrightarrow> a = 3 \<and> r2 = 1460"
    using r2 da by (auto simp: doy_def a_def min_def)
  have "era_split c q a doy"
    unfolding era_split_def using c q a doy r2 r1 by blast
  moreover have "doe = era_day c q a doy"
    unfolding era_day_def doy_def r2_def r1_def by simp
  ultimately show ?thesis
    by blast
qed

lemma month_day_in:
  fixes doy k :: int
  assumes "153 * k \<le> 5 * doy + 2" and "5 * doy + 2 < 153 * k + 153"
  shows "month_day doy = (if k < 10 then k + 3 else k - 9, doy - (153 * k + 2) div 5 + 1)"
  by (simp add: month_day_def div_between [OF assms])

lemma month_day_table:
  assumes "0 \<le> doy" and "doy \<le> 365"
  shows "month_day doy = month_table doy"
  unfolding month_table_def using assms
  by (simp add: month_day_in [of 0 doy] month_day_in [of 1 doy] month_day_in [of 2 doy]
      month_day_in [of 3 doy] month_day_in [of 4 doy] month_day_in [of 5 doy]
      month_day_in [of 6 doy] month_day_in [of 7 doy] month_day_in [of 8 doy]
      month_day_in [of 9 doy] month_day_in [of 10 doy] month_day_in [of 11 doy])


lemma month_table_inverse:
  assumes "0 \<le> doy" and "doy \<le> 365" and "month_table doy = (m, d)"
  shows "(153 * ((m + 9) mod 12) + 2) div 5 + d - 1 = doy"
  using assms by (auto simp: month_table_def split: if_splits)

lemma twelve_cases:
  fixes x :: int
  assumes "1 \<le> x" and "x \<le> 12"
  shows "x \<in> {1, 2, 3, 4, 5, 6, 7, 8, 9, 10, 11, 12}"
  using assms by simp presburger

lemma month_table_of_date:
  assumes "m \<in> {1, 2, 3, 4, 5, 6, 7, 8, 9, 10, 11, 12}" and "1 \<le> d"
    and "d \<le> (if m = 2 then 29 else if m = 4 \<or> m = 6 \<or> m = 9 \<or> m = 11 then 30 else 31)"
  shows "month_table ((153 * ((m + 9) mod 12) + 2) div 5 + d - 1) = (m, d)"
    and "0 \<le> (153 * ((m + 9) mod 12) + 2) div 5 + d - 1"
    and "(153 * ((m + 9) mod 12) + 2) div 5 + d - 1 \<le> 365"
    and "((153 * ((m + 9) mod 12) + 2) div 5 + d - 1 = 365) = (m = 2 \<and> d = 29)"
  using assms by (elim insertE emptyE; simp add: month_table_def)+

lemma civil_from_days_split:
  assumes s: "era_split c q a doy" and z: "z + 719468 = era * 146097 + era_day c q a doy"
  shows "civil_from_days z =
           (if fst (month_table doy) \<le> 2 then 100 * c + 4 * q + a + era * 400 + 1
            else 100 * c + 4 * q + a + era * 400,
            fst (month_table doy), snd (month_table doy))"
proof -
  define doe where "doe = era_day c q a doy"
  define k where "k = 100 * c + 4 * q + a"
  have b: "0 \<le> doy" "doy \<le> 365"
    using s by (simp_all add: era_split_def)
  have e: "(z + 719468) div 146097 = era"
    using era_day_bounds [OF s] z by (intro div_between) simp_all
  have d: "z + 719468 - era * 146097 = doe"
    using z by (simp add: doe_def)
  have y: "(doe - doe div 1460 + doe div 36524 - doe div 146096) div 365 = k"
    using yoe_of_era_day [OF s] by (simp add: doe_def k_def)
  have dy: "doe - (365 * k + k div 4 - k div 100) = doy"
    using year_of_era_parts(1,2) [OF s] by (simp add: doe_def k_def era_day_def)
  have "civil_from_days z =
          (if fst (month_day doy) \<le> 2 then k + era * 400 + 1 else k + era * 400,
           fst (month_day doy), snd (month_day doy))"
    unfolding civil_from_days_def month_day_def Let_def e d y dy by simp
  then show ?thesis
    by (simp add: month_day_table [OF b] k_def)
qed

lemma days_from_civil_split:
  assumes s: "era_split c q a doy"
  shows "days_from_civil
           (if fst (month_table doy) \<le> 2 then 100 * c + 4 * q + a + era * 400 + 1
            else 100 * c + 4 * q + a + era * 400)
           (fst (month_table doy)) (snd (month_table doy))
         = era * 146097 + era_day c q a doy - 719468"
proof -
  define k where "k = 100 * c + 4 * q + a"
  define m where "m = fst (month_table doy)"
  define d where "d = snd (month_table doy)"
  have b: "0 \<le> doy" "doy \<le> 365"
    using s by (simp_all add: era_split_def)
  have y: "(if m \<le> 2 then (if m \<le> 2 then k + era * 400 + 1 else k + era * 400) - 1
            else (if m \<le> 2 then k + era * 400 + 1 else k + era * 400)) = k + era * 400"
    by simp
  have e: "(k + era * 400) div 400 = era"
    using year_of_era_parts(3) [OF s] by (simp add: k_def)
  have i: "(153 * ((m + 9) mod 12) + 2) div 5 + d - 1 = doy"
    using month_table_inverse [OF b, of m d] by (simp add: m_def d_def)
  have eq: "k * 365 + k div 4 - k div 100 + doy = era_day c q a doy"
    using year_of_era_parts(1,2) [OF s] by (simp add: k_def era_day_def)
  have "days_from_civil (if m \<le> 2 then k + era * 400 + 1 else k + era * 400) m d
          = era * 146097 + (k * 365 + k div 4 - k div 100 + doy) - 719468"
    unfolding days_from_civil_def Let_def y e i by simp
  then show ?thesis
    unfolding eq unfolding k_def m_def d_def .
qed

lemma mod_between:
  fixes x b k r :: int
  assumes "x = b * k + r" and "0 \<le> r" and "r < b"
  shows "x mod b = r"
  using assms by (metis int_mod_pos_eq)


lemma day_split:
  obtains era c q a doy
  where "era_split c q a doy" and "z + 719468 = era * 146097 + era_day c q a doy"
proof -
  define era where "era = (z + 719468) div 146097"
  define doe where "doe = z + 719468 - era * 146097"
  have "0 \<le> doe" and "doe < 146097"
    using div_bounds [of 146097 "z + 719468"] by (simp_all add: doe_def era_def)
  then obtain c q a doy where "era_split c q a doy" and "doe = era_day c q a doy"
    using era_split_exists by blast
  moreover from this have "z + 719468 = era * 146097 + era_day c q a doy"
    by (simp add: doe_def)
  ultimately show thesis
    using that by blast
qed

lemma days_from_civil_inverse:
  "days_from_civil (fst (civil_from_days z)) (fst (snd (civil_from_days z)))
     (snd (snd (civil_from_days z))) = z"
proof -
  obtain era c q a doy
    where s: "era_split c q a doy" and z: "z + 719468 = era * 146097 + era_day c q a doy"
    by (rule day_split)
  show ?thesis
    using days_from_civil_split [OF s, of era] z
    by (simp add: civil_from_days_split [OF s z])
qed


lemma civil_from_days_inverse:
  assumes m: "1 \<le> m" "m \<le> 12" and d: "1 \<le> d" "d \<le> days_in_month y m"
  shows "civil_from_days (days_from_civil y m d) = (y, m, d)"
proof -
  define y' where "y' = (if m \<le> 2 then y - 1 else y)"
  define era where "era = y' div 400"
  define k where "k = y' - era * 400"
  define c where "c = k div 100"
  define r where "r = k - 100 * c"
  define q where "q = r div 4"
  define a where "a = r - 4 * q"
  define doy where "doy = (153 * ((m + 9) mod 12) + 2) div 5 + d - 1"
  have k: "0 \<le> k" "k < 400"
    using div_bounds [of 400 y'] by (simp_all add: k_def era_def)
  have c: "0 \<le> c" "c \<le> 3"
    using k div_bounds [of 100 k] by (simp_all add: c_def)
  have r: "0 \<le> r" "r < 100"
    using div_bounds [of 100 k] by (simp_all add: r_def c_def)
  have q: "0 \<le> q" "q \<le> 24"
    using r div_bounds [of 4 r] by (simp_all add: q_def)
  have a: "0 \<le> a" "a \<le> 3"
    using div_bounds [of 4 r] by (simp_all add: a_def q_def)
  have kk: "k = 100 * c + 4 * q + a"
    by (simp add: a_def r_def)
  have yy: "y' = 100 * c + 4 * q + a + era * 400"
    using kk by (simp add: k_def)
  have mm: "m \<in> {1, 2, 3, 4, 5, 6, 7, 8, 9, 10, 11, 12}"
    using m by (rule twelve_cases)
  have dd: "d \<le> (if m = 2 then 29 else if m = 4 \<or> m = 6 \<or> m = 9 \<or> m = 11 then 30 else 31)"
    using d(2) by (simp add: days_in_month_def split: if_splits)
  note mt = month_table_of_date [OF mm d(1) dd, folded doy_def]
  have last: "a = 3 \<and> (q = 24 \<longrightarrow> c = 3)" if "doy = 365"
  proof -
    from that mt(4) have "m = 2" and "d = 29"
      by simp_all
    with d(2) have leap: "is_leap y"
      by (simp add: days_in_month_def split: if_splits)
    have y: "y = 100 * c + 4 * q + a + era * 400 + 1"
      using yy \<open>m = 2\<close> by (simp add: y'_def)
    have a3: "a = 3"
    proof (rule ccontr)
      assume "a \<noteq> 3"
      with a have "y mod 4 = a + 1"
        by (intro mod_between [of _ _ "25 * c + q + 100 * era"]) (simp_all add: y)
      with leap a show False
        by (simp add: is_leap_def)
    qed
    have "c = 3" if "q = 24"
    proof (rule ccontr)
      assume "c \<noteq> 3"
      with c have "y mod 400 = 100 * c + 100"
        by (intro mod_between [of _ _ era]) (simp_all add: y a3 that)
      moreover have "y mod 100 = 0"
        by (rule mod_between [of _ _ "c + 1 + 4 * era"]) (simp_all add: y a3 that)
      ultimately show False
        using leap c by (simp add: is_leap_def)
    qed
    with a3 show ?thesis
      by simp
  qed
  have s: "era_split c q a doy"
    using c q a mt(2,3) last by (auto simp: era_split_def)
  have "days_from_civil y m d = era * 146097 + (k * 365 + k div 4 - k div 100 + doy) - 719468"
    by (simp add: days_from_civil_def Let_def y'_def era_def k_def doy_def)
  also have "k * 365 + k div 4 - k div 100 + doy = era_day c q a doy"
    using year_of_era_parts(1,2) [OF s] by (simp add: kk era_day_def)
  finally have "days_from_civil y m d + 719468 = era * 146097 + era_day c q a doy"
    by simp
  from civil_from_days_split [OF s this] show ?thesis
    using yy by (simp add: mt(1) y'_def split: if_splits)
qed

section \<open>Validation gate\<close>

lemmas parse_simps =
  parseFloat_def parse_sign_def parse_exponent_def pow10_def is_ws_def is_digit_def dec_val_def
  digit_val_def Let_def



section \<open>The date of a new row\<close>

















section \<open>Totals\<close>

lemma or_zero_alt: "or_zero n = (if isNaN n then 0 else n)"
  by (cases n) (simp_all add: or_zero_def isNaN_def zero_jsnum_def)

lemma foldl_js_add: "foldl (\<lambda>sum e. js_add sum (f e)) a fes = a + sum_list (map f fes)"
  by (induction fes arbitrary: a) (simp_all add: plus_jsnum_def [symmetric] add.assoc)

lemma overallTotal_sum_list:
  "overallTotal fes = (\<Sum>e\<leftarrow>fes. if isNaN (e_amount e) then 0 else e_amount e)"
  by (simp add: overallTotal_def foldl_js_add or_zero_alt zero_jsnum_def [symmetric])


text \<open>
  C7. Under the selector \<open>All\<close> the filtered list is the loaded list itself, and the
  overall total is the sum over all loaded rows.
\<close>

theorem all_filter_is_identity:
  "filteredExpenses rt All es = es
   \<and> overallTotal (filteredExpenses rt All es)
       = (\<Sum>e\<leftarrow>es. if isNaN (e_amount e) then 0 else e_amount e)"
  by (simp add: filteredExpenses_def overallTotal_sum_list)

text \<open>
  When no category of the rows names a property of \<open>Object.prototype\<close> and no amount is
  \<open>-Infinity\<close>, the totals hold exactly the categories of the rows, each once and with the
  sum of its amounts, and their values add up to the overall total.
\<close>

lemma js_add_plus: "js_add a b = a + b"
  by (simp add: plus_jsnum_def)

lemma or_zero_proper:
  assumes "a \<noteq> NegInf"
  shows "or_zero a \<noteq> NaN" and "or_zero a \<noteq> NegInf"
  using assms by (cases a; simp add: or_zero_def)+

lemma plus_proper:
  fixes a b :: jsnum
  assumes "a \<noteq> NaN" and "a \<noteq> NegInf" and "b \<noteq> NaN" and "b \<noteq> NegInf"
  shows "a + b \<noteq> NaN" and "a + b \<noteq> NegInf"
  using assms by (cases a; cases b; simp add: plus_jsnum_def)+

lemma sum_proper:
  assumes "\<forall>e\<in>set fes. e_amount e \<noteq> NegInf"
  shows "(\<Sum>e\<leftarrow>fes. or_zero (e_amount e)) \<noteq> NaN \<and> (\<Sum>e\<leftarrow>fes. or_zero (e_amount e)) \<noteq> NegInf"
  using assms
proof (induction fes)
  case Nil
  show ?case
    by (simp add: zero_jsnum_def)
next
  case (Cons e fes)
  then show ?case
    using plus_proper or_zero_proper by simp
qed

lemma category_sum_proper:
  assumes "\<forall>e\<in>set fes. e_amount e \<noteq> NegInf"
  shows "category_sum c fes \<noteq> NaN"
  using sum_proper [of "filter (\<lambda>e. category_of e = c) fes"] assms
  by (simp add: category_sum_def)

lemma values_sum_update:
  assumes "map_of obj k = Some (PNum n)"
  shows "values_sum (AList.update k (PNum (n + a)) obj) = values_sum obj + a"
  using assms
proof (induction obj)
  case Nil
  then show ?case
    by simp
next
  case (Cons kv obj)
  then show ?case
    by (cases kv) (auto simp: values_sum_def prop_num_def ac_simps)
qed

lemma values_sum_new:
  assumes "map_of obj k = None"
  shows "values_sum (AList.update k (PNum a) obj) = values_sum obj + a"
  using assms
proof (induction obj)
  case Nil
  then show ?case
    by (simp add: values_sum_def prop_num_def)
next
  case (Cons kv obj)
  then show ?case
    by (cases kv) (auto simp: values_sum_def prop_num_def ac_simps split: if_splits)
qed

lemma add_to_totals_new:
  assumes "object_prototype (category_of e) = None" and "map_of totals (category_of e) = None"
  shows "add_to_totals totals e
           = AList.update (category_of e) (PNum (or_zero (e_amount e))) totals"
proof -
  have k: "category_of e \<noteq> ''__proto__''"
    using assms(1) by (auto simp: object_prototype_def)
  show ?thesis
    using assms k
    by (simp add: add_to_totals_def Let_def get_prop_def set_prop_def truthy_prop_def
        plus_number_def update_conv' js_add_plus zero_jsnum_def [symmetric])
qed

lemma add_to_totals_old:
  assumes "object_prototype (category_of e) = None"
    and "map_of totals (category_of e) = Some (PNum n)" and "n \<noteq> NaN"
  shows "add_to_totals totals e
           = AList.update (category_of e) (PNum (n + or_zero (e_amount e))) totals"
proof -
  have k: "category_of e \<noteq> ''__proto__''"
    using assms(1) by (auto simp: object_prototype_def)
  have z: "n = 0" if "\<not> truthy_num n"
    using that assms(3) by (cases n) (simp_all add: zero_jsnum_def)
  show ?thesis
    using assms k z
    by (auto simp: add_to_totals_def Let_def get_prop_def set_prop_def truthy_prop_def
        plus_number_def update_conv' js_add_plus zero_jsnum_def [symmetric])
qed

lemma categoryTotals_snoc: "categoryTotals (fes @ [e]) = add_to_totals (categoryTotals fes) e"
  by (simp add: categoryTotals_def)

lemma category_sum_snoc:
  "category_sum c (fes @ [e])
     = (if category_of e = c then category_sum c fes + or_zero (e_amount e) else category_sum c fes)"
  by (simp add: category_sum_def)

lemma category_sum_none:
  assumes "c \<notin> category_of ` set fes"
  shows "category_sum c fes = 0"
proof -
  have "filter (\<lambda>e. category_of e = c) fes = []"
    using assms by (auto simp: filter_empty_conv)
  then show ?thesis
    by (simp add: category_sum_def)
qed

lemma categoryTotals_regular:
  assumes "\<forall>e\<in>set fes. object_prototype (category_of e) = None"
    and "\<forall>e\<in>set fes. e_amount e \<noteq> NegInf"
  shows "map_of (categoryTotals fes) c
           = (if c \<in> category_of ` set fes then Some (PNum (category_sum c fes)) else None)
         \<and> distinct (map fst (categoryTotals fes))
         \<and> values_sum (categoryTotals fes) = overallTotal fes"
  using assms
proof (induction fes arbitrary: c rule: rev_induct)
  case Nil
  show ?case
    by (simp add: categoryTotals_def values_sum_def overallTotal_def zero_jsnum_def)
next
  case (snoc e fes)
  let ?k = "category_of e"
  let ?a = "or_zero (e_amount e)"
  have reg: "object_prototype ?k = None" and amt: "\<forall>e\<in>set fes. e_amount e \<noteq> NegInf"
    using snoc.prems by simp_all
  have ih: "map_of (categoryTotals fes) c
              = (if c \<in> category_of ` set fes then Some (PNum (category_sum c fes)) else None)"
    and dist: "distinct (map fst (categoryTotals fes))"
    and vs: "values_sum (categoryTotals fes) = overallTotal fes" for c
    using snoc.IH snoc.prems by simp_all
  have total: "overallTotal (fes @ [e]) = overallTotal fes + ?a"
    by (simp add: overallTotal_def js_add_plus)
  show ?case
  proof (cases "?k \<in> category_of ` set fes")
    case True
    then have old: "map_of (categoryTotals fes) ?k = Some (PNum (category_sum ?k fes))"
      by (simp add: ih)
    have step: "categoryTotals (fes @ [e])
                  = AList.update ?k (PNum (category_sum ?k fes + ?a)) (categoryTotals fes)"
      using add_to_totals_old [OF reg old category_sum_proper [OF amt]]
      by (simp add: categoryTotals_snoc)
    show ?thesis
      using True
      by (auto simp: step update_conv' ih distinct_update dist values_sum_update [OF old] vs total
          category_sum_snoc)
  next
    case False
    then have new: "map_of (categoryTotals fes) ?k = None"
      by (simp add: ih)
    have step: "categoryTotals (fes @ [e]) = AList.update ?k (PNum ?a) (categoryTotals fes)"
      using add_to_totals_new [OF reg new] by (simp add: categoryTotals_snoc)
    show ?thesis
      using False category_sum_none [OF False]
      by (auto simp: step update_conv' ih distinct_update dist values_sum_new [OF new] vs total
          category_sum_snoc)
  qed
qed

text \<open>
  C5. The claim that every category of the filtered rows is a key of the totals, mapped to
  the sum of its amounts, fails for a category that names a property of \<open>Object.prototype\<close>:
  for the single row of category \<open>constructor\<close> and amount 12.5 the totals map that key to a
  string, not to 12.5. Ordinary categories are summed as claimed.
\<close>

theorem category_totals_inherited_key:
  "category_of ctor_expense = ''constructor''
   \<and> category_sum ''constructor'' [ctor_expense] = Fin (25 / 2)
   \<and> categoryTotals [ctor_expense] = [(''constructor'', PStr)]
   \<and> categoryTotals [lunch, books] = [(''Food'', PNum (Fin 10)), (''Books'', PNum (Fin 5))]"
proof -
  have a: "category_of ctor_expense = ''constructor''"
    by code_simp
  have b: "category_sum ''constructor'' [ctor_expense] = Fin (25 / 2)"
    by (simp add: category_sum_def a) (simp add: ctor_expense_def or_zero_def)
  have c: "categoryTotals [ctor_expense] = [(''constructor'', PStr)]"
    by code_simp
  have d: "categoryTotals [lunch, books] = [(''Food'', PNum (Fin 10)), (''Books'', PNum (Fin 5))]"
    by code_simp
  show ?thesis
    using a b c d by simp
qed

text \<open>
  C10. The overall total and the category totals disagree on the single row of category
  \<open>__proto__\<close>, under every selector that keeps the row: the overall total is 12.5 while
  the totals object has no key at all, so its values sum to zero.
\<close>

theorem totals_disagree_on_proto_key:
  "filteredExpenses rt All [proto_expense] = [proto_expense]
   \<and> overallTotal [proto_expense] = Fin (25 / 2)
   \<and> categoryTotals [proto_expense] = []
   \<and> values_sum (categoryTotals [proto_expense]) = Fin 0"
proof -
  have a: "overallTotal [proto_expense] = Fin (25 / 2)"
    by (simp add: overallTotal_def proto_expense_def or_zero_def)
  have b: "categoryTotals [proto_expense] = []"
    by code_simp
  show ?thesis
    using a b by (simp add: filteredExpenses_def values_sum_def zero_jsnum_def)
qed

section \<open>Time-window filters\<close>

text \<open>
  What the two filters select, in calendar terms. A date-only string is read as midnight
  UTC and then moved to the start of its local day, so west of Greenwich every row counts
  one day earlier than it is dated.
\<close>

lemma msPerDay_pos: "0 < msPerDay"
  by (simp add: msPerDay_def)

lemma localDay_of_day:
  assumes "0 \<le> off" and "off < msPerDay"
  shows "localDay rt (D * msPerDay + off - tzms rt) = D"
  unfolding localDay_def using assms by (intro div_between) (simp_all add: mult.commute)

lemma setHours_midnight: "setHours rt t 0 0 0 0 = localDay rt t * msPerDay - tzms rt"
  by (simp add: setHours_def)

lemma setHours_last: "setHours rt t 23 59 59 999 = localDay rt t * msPerDay + 86399999 - tzms rt"
  by (simp add: setHours_def)

lemma days_from_civil_day: "days_from_civil y m d = days_from_civil y m 1 + d - 1"
  by (simp add: days_from_civil_def Let_def)

lemma setDate_of_day:
  assumes "0 \<le> off" and "off < msPerDay"
  shows "setDate rt (D * msPerDay + off - tzms rt) (getDate rt (D * msPerDay + off - tzms rt) + n)
           = (D + n) * msPerDay + off - tzms rt"
proof -
  let ?t = "D * msPerDay + off - tzms rt"
  have l: "localDay rt ?t = D"
    using assms by (rule localDay_of_day)
  obtain y m d where c: "civil_from_days D = (y, m, d)"
    by (metis prod_cases3)
  have "days_from_civil y m d = D"
    using days_from_civil_inverse [of D] by (simp add: c)
  then have day: "days_from_civil y m 1 + (d + n) - 1 = D + n"
    using days_from_civil_day [of y m d] by simp
  have "(?t + tzms rt) mod msPerDay = off"
    using assms by (simp add: mod_between [of _ _ D] mult.commute)
  then show ?thesis
    by (simp add: setDate_def Let_def getFullYear_def getMonth_def getDate_def l c day)
qed

lemma local_day_of_utc_midnight: "localDay rt (D * msPerDay) = D + zone_shift rt"
  using msPerDay_pos by (simp add: localDay_def zone_shift_def mult.commute)

lemma day_le_iff:
  shows "(a * msPerDay - z \<le> b * msPerDay - z) = (a \<le> b)"
    and "(a * msPerDay - z \<le> b * msPerDay + 86399999 - z) = (a \<le> b)"
proof -
  show "(a * msPerDay - z \<le> b * msPerDay - z) = (a \<le> b)"
    using msPerDay_pos by simp
  have "(a * 86400000 \<le> b * 86400000 + 86399999) = (a \<le> b)"
    by linarith
  then show "(a * msPerDay - z \<le> b * msPerDay + 86399999 - z) = (a \<le> b)"
    by (simp add: msPerDay_def)
qed

lemma week_day_offset: "((T + 4) mod 7 + 6) mod 7 = (T + 3) mod (7::int)"
  by presburger

lemma week_begin:
  fixes rt :: runtime
  defines "T \<equiv> localDay rt (now rt)"
  defines "today \<equiv> setHours rt (now rt) 0 0 0 0"
  shows "setHours rt (setDate rt today (getDate rt today - ((getDay rt today + 6) mod 7))) 0 0 0 0
           = week_start T * msPerDay - tzms rt"
proof -
  have today: "today = T * msPerDay + 0 - tzms rt"
    by (simp add: today_def T_def setHours_midnight)
  have lt: "localDay rt today = T"
    unfolding today using msPerDay_pos by (intro localDay_of_day) simp_all
  have diff: "(getDay rt today + 6) mod 7 = (T + 3) mod 7"
    by (simp add: getDay_def lt week_day_offset)
  have "setDate rt today (getDate rt today + - ((T + 3) mod 7))
          = (T + - ((T + 3) mod 7)) * msPerDay + 0 - tzms rt"
    unfolding today using msPerDay_pos by (intro setDate_of_day) simp_all
  then have sd: "setDate rt today (getDate rt today - (T + 3) mod 7)
                   = week_start T * msPerDay + 0 - tzms rt"
    by (simp add: week_start_def)
  have "localDay rt (week_start T * msPerDay + 0 - tzms rt) = week_start T"
    using msPerDay_pos by (intro localDay_of_day) simp_all
  then show ?thesis
    by (simp add: diff sd setHours_midnight)
qed

lemma week_end:
  "setHours rt (setDate rt (W * msPerDay - tzms rt) (getDate rt (W * msPerDay - tzms rt) + 6))
     23 59 59 999
     = (W + 6) * msPerDay + 86399999 - tzms rt"
proof -
  have "setDate rt (W * msPerDay + 0 - tzms rt) (getDate rt (W * msPerDay + 0 - tzms rt) + 6)
          = (W + 6) * msPerDay + 0 - tzms rt"
    using msPerDay_pos by (intro setDate_of_day) simp_all
  moreover have "localDay rt ((W + 6) * msPerDay + 0 - tzms rt) = W + 6"
    using msPerDay_pos by (intro localDay_of_day) simp_all
  ultimately show ?thesis
    by (simp add: setHours_last)
qed

lemma date_fields_Nil: "date_fields [] = None"
  by (simp add: date_fields_def)

lemma week_filter_days:
  "filteredExpenses rt Week es
     = filter (\<lambda>e. case date_day e of
                      None \<Rightarrow> False
                    | Some D \<Rightarrow>
                        week_start (localDay rt (now rt)) \<le> D + zone_shift rt
                        \<and> D + zone_shift rt \<le> week_start (localDay rt (now rt)) + 6) es"
proof -
  define T where "T = localDay rt (now rt)"
  define S where "S = week_start T * msPerDay - tzms rt"
  define E where "E = (week_start T + 6) * msPerDay + 86399999 - tzms rt"
  have keep: "(case e_date e of
                 None \<Rightarrow> False
               | Some ds \<Rightarrow>
                   ds \<noteq> [] \<and>
                   (case parseDate ds of
                      None \<Rightarrow> False
                    | Some d0 \<Rightarrow> S \<le> setHours rt d0 0 0 0 0 \<and> setHours rt d0 0 0 0 0 \<le> E))
              = (case date_day e of
                   None \<Rightarrow> False
                 | Some D \<Rightarrow> week_start T \<le> D + zone_shift rt \<and> D + zone_shift rt \<le> week_start T + 6)"
    for e
  proof (cases "e_date e")
    case None
    then show ?thesis
      by (simp add: date_day_def)
  next
    case ds: (Some ds)
    show ?thesis
    proof (cases "date_fields ds")
      case None
      with ds show ?thesis
        by (simp add: date_day_def parseDate_def)
    next
      case (Some f)
      then have "ds \<noteq> []"
        using date_fields_Nil by auto
      with ds Some show ?thesis
        by (cases f)
          (simp add: date_day_def parseDate_def setHours_midnight local_day_of_utc_midnight
            S_def E_def day_le_iff)
    qed
  qed
  have "filteredExpenses rt Week es
          = filter (\<lambda>e. case e_date e of
                           None \<Rightarrow> False
                         | Some ds \<Rightarrow>
                             ds \<noteq> [] \<and>
                             (case parseDate ds of
                                None \<Rightarrow> False
                              | Some d0 \<Rightarrow>
                                  S \<le> setHours rt d0 0 0 0 0 \<and> setHours rt d0 0 0 0 0 \<le> E)) es"
    by (simp add: filteredExpenses_def Let_def week_begin week_end S_def E_def T_def
        cong: option.case_cong)
  then show ?thesis
    unfolding keep T_def .
qed

lemma month_filter_days:
  "filteredExpenses rt Month es
     = filter (\<lambda>e. case date_day e of
                      None \<Rightarrow> False
                    | Some D \<Rightarrow>
                        fst (civil_from_days (D + zone_shift rt))
                          = fst (civil_from_days (localDay rt (now rt)))
                        \<and> fst (snd (civil_from_days (D + zone_shift rt)))
                            = fst (snd (civil_from_days (localDay rt (now rt))))) es"
proof -
  let ?T = "localDay rt (now rt)"
  have lt: "localDay rt (setHours rt (now rt) 0 0 0 0) = ?T"
    using localDay_of_day [of 0 rt ?T] msPerDay_pos by (simp add: setHours_midnight)
  have keep: "(case e_date e of
                 None \<Rightarrow> False
               | Some ds \<Rightarrow>
                   ds \<noteq> [] \<and>
                   (case parseDate ds of
                      None \<Rightarrow> False
                    | Some d \<Rightarrow>
                        fst (civil_from_days (localDay rt d)) = fst (civil_from_days ?T)
                        \<and> fst (snd (civil_from_days (localDay rt d)))
                            = fst (snd (civil_from_days ?T))))
              = (case date_day e of
                   None \<Rightarrow> False
                 | Some D \<Rightarrow>
                     fst (civil_from_days (D + zone_shift rt)) = fst (civil_from_days ?T)
                     \<and> fst (snd (civil_from_days (D + zone_shift rt)))
                         = fst (snd (civil_from_days ?T)))"
    for e
  proof (cases "e_date e")
    case None
    then show ?thesis
      by (simp add: date_day_def)
  next
    case ds: (Some ds)
    show ?thesis
    proof (cases "date_fields ds")
      case None
      with ds show ?thesis
        by (simp add: date_day_def parseDate_def)
    next
      case (Some f)
      then have "ds \<noteq> []"
        using date_fields_Nil by auto
      with ds Some show ?thesis
        by (cases f) (simp add: date_day_def parseDate_def local_day_of_utc_midnight)
    qed
  qed
  have "filteredExpenses rt Month es
          = filter (\<lambda>e. case e_date e of
                 None \<Rightarrow> False
               | Some ds \<Rightarrow>
                   ds \<noteq> [] \<and>
                   (case parseDate ds of
                      None \<Rightarrow> False
                    | Some d \<Rightarrow>
                        fst (civil_from_days (localDay rt d)) = fst (civil_from_days ?T)
                        \<and> fst (snd (civil_from_days (localDay rt d)))
                            = fst (snd (civil_from_days ?T)))) es"
    by (simp add: filteredExpenses_def Let_def getFullYear_def getMonth_def lt
        cong: option.case_cong)
  then show ?thesis
    unfolding keep .
qed

lemma zone_shift_east:
  assumes "0 \<le> utcOffset rt" and "utcOffset rt < 1440"
  shows "zone_shift rt = 0"
  unfolding zone_shift_def using assms by (intro div_between) (simp_all add: tzms_def msPerDay_def)

lemma zone_shift_west:
  assumes "- 1440 \<le> utcOffset rt" and "utcOffset rt < 0"
  shows "zone_shift rt = - 1"
  unfolding zone_shift_def using assms by (intro div_between) (simp_all add: tzms_def msPerDay_def)

lemma week_start_monday:
  shows "week_start T \<le> T" and "T \<le> week_start T + 6" and "(week_start T + 3) mod 7 = 0"
proof -
  have "0 \<le> (T + 3) mod 7" and "(T + 3) mod 7 < 7"
    by simp_all
  then show "week_start T \<le> T" and "T \<le> week_start T + 6"
    by (simp_all add: week_start_def)
  have "(T + 3 - (T + 3) mod 7) mod 7 = 0"
    by (simp add: minus_mod_eq_mult_div)
  then show "(week_start T + 3) mod 7 = 0"
    by (simp add: week_start_def algebra_simps)
qed

lemma date_fields_valid:
  assumes "date_fields ds = Some (y, m, d)"
  shows "1 \<le> m" and "m \<le> 12" and "1 \<le> d" and "d \<le> days_in_month y m"
  using assms by (simp_all add: date_fields_def Let_def split: if_splits)

lemma week_filter_east:
  assumes "0 \<le> utcOffset rt" and "utcOffset rt < 1440"
  shows "filteredExpenses rt Week es
           = filter (\<lambda>e. case date_day e of
                            None \<Rightarrow> False
                          | Some D \<Rightarrow>
                              week_start (localDay rt (now rt)) \<le> D
                              \<and> D \<le> week_start (localDay rt (now rt)) + 6) es"
  by (simp add: week_filter_days zone_shift_east [OF assms] cong: option.case_cong)

lemma month_filter_east:
  assumes "0 \<le> utcOffset rt" and "utcOffset rt < 1440"
  shows "filteredExpenses rt Month es
           = filter (\<lambda>e. case e_date e of
                            None \<Rightarrow> False
                          | Some ds \<Rightarrow>
                              (case date_fields ds of
                                 None \<Rightarrow> False
                               | Some (y, m, d) \<Rightarrow>
                                   y = fst (civil_from_days (localDay rt (now rt)))
                                   \<and> m = fst (snd (civil_from_days (localDay rt (now rt)))))) es"
proof -
  have "(case date_day e of
           None \<Rightarrow> False
         | Some D \<Rightarrow>
             fst (civil_from_days (D + zone_shift rt)) = Y
             \<and> fst (snd (civil_from_days (D + zone_shift rt))) = M)
        = (case e_date e of
             None \<Rightarrow> False
           | Some ds \<Rightarrow>
               (case date_fields ds of None \<Rightarrow> False | Some (y, m, d) \<Rightarrow> y = Y \<and> m = M))"
    for e Y M
  proof (cases "e_date e")
    case None
    then show ?thesis
      by (simp add: date_day_def)
  next
    case ds: (Some ds)
    show ?thesis
    proof (cases "date_fields ds")
      case None
      with ds show ?thesis
        by (simp add: date_day_def)
    next
      case (Some f)
      obtain y m d where f: "f = (y, m, d)"
        by (metis prod_cases3)
      have "civil_from_days (days_from_civil y m d) = (y, m, d)"
        using date_fields_valid [OF Some [unfolded f]] by (rule civil_from_days_inverse)
      with ds Some f show ?thesis
        by (simp add: date_day_def zone_shift_east [OF assms])
    qed
  qed
  then show ?thesis
    unfolding month_filter_days by simp
qed

lemma week_filter_eight_days_ago:
  assumes "utcOffset rt < 1440" and "date_day e = Some (localDay rt (now rt) - 8)"
  shows "e \<notin> set (filteredExpenses rt Week es)"
proof -
  have "msPerDay * zone_shift rt \<le> tzms rt"
    unfolding zone_shift_def using msPerDay_pos by (rule div_bounds)
  moreover have "tzms rt < msPerDay"
    using assms(1) by (simp add: tzms_def msPerDay_def)
  ultimately have "msPerDay * zone_shift rt < msPerDay * 1"
    by simp
  then have "zone_shift rt \<le> 0"
    using msPerDay_pos by (simp add: mult_less_cancel_left_pos)
  moreover have "localDay rt (now rt) \<le> week_start (localDay rt (now rt)) + 6"
    by (rule week_start_monday)
  ultimately show ?thesis
    using assms(2) by (simp add: week_filter_days)
qed

lemma week_filter_today:
  assumes "- 1440 \<le> utcOffset rt" and "utcOffset rt < 1440"
    and "e \<in> set es" and "date_day e = Some (localDay rt (now rt))"
  shows "(e \<in> set (filteredExpenses rt Week es))
           = (0 \<le> utcOffset rt \<or> (localDay rt (now rt) + 3) mod 7 \<noteq> 0)"
proof (cases "0 \<le> utcOffset rt")
  case True
  then show ?thesis
    using assms week_start_monday(1,2) [of "localDay rt (now rt)"]
    by (simp add: week_filter_days zone_shift_east)
next
  case False
  then have z: "zone_shift rt = - 1"
    using assms(1) by (intro zone_shift_west) simp_all
  have "(week_start T \<le> T - 1) = ((T + 3) mod 7 \<noteq> 0)" for T :: int
    by (simp add: week_start_def) presburger
  then show ?thesis
    using False assms(3,4) week_start_monday(2) [of "localDay rt (now rt)"]
    by (simp add: week_filter_days z)
qed

text \<open>
  C3. On a Monday at 10:00 in a zone five hours west of Greenwich, a row dated that very day
  (the date of both the local and the UTC calendar) is dropped by the selector \<open>Week\<close>;
  with the same clock on UTC it is kept.
\<close>

theorem week_filter_drops_record_of_today:
  "getTodayDateString rt_monday_west = ''2025-03-03''
   \<and> civil_from_days (localDay rt_monday_west (now rt_monday_west)) = (2025, 3, 3)
   \<and> e_date lunch = Some ''2025-03-03''
   \<and> filteredExpenses rt_monday_west Week [lunch] = []
   \<and> filteredExpenses rt_monday_utc Week [lunch] = [lunch]"
proof -
  have a: "getTodayDateString rt_monday_west = ''2025-03-03''" by code_simp
  have b: "civil_from_days (localDay rt_monday_west (now rt_monday_west)) = (2025, 3, 3)"
    by code_simp
  have c: "e_date lunch = Some ''2025-03-03''" by (simp add: lunch_def)
  have d: "filteredExpenses rt_monday_west Week [lunch] = []" by code_simp
  have e: "filteredExpenses rt_monday_utc Week [lunch] = [lunch]" by code_simp
  show ?thesis using a b c d e by simp
qed

text \<open>
  C4. On the first of March at 10:00 in the same zone, a row dated the first of March is
  dropped by the selector \<open>Month\<close>; on the last of March a row dated the first of April is
  kept.
\<close>

theorem month_filter_drops_first_of_month:
  "getTodayDateString rt_first_west = ''2025-03-01''
   \<and> civil_from_days (localDay rt_first_west (now rt_first_west)) = (2025, 3, 1)
   \<and> e_date books = Some ''2025-03-01''
   \<and> filteredExpenses rt_first_west Month [books] = []
   \<and> e_date april_first = Some ''2025-04-01''
   \<and> filteredExpenses (rt_first_west\<lparr>now := 1743433200000\<rparr>) Month [april_first] = [april_first]"
proof -
  have a: "getTodayDateString rt_first_west = ''2025-03-01''" by code_simp
  have b: "civil_from_days (localDay rt_first_west (now rt_first_west)) = (2025, 3, 1)"
    by code_simp
  have c: "e_date books = Some ''2025-03-01''" by (simp add: books_def)
  have d: "filteredExpenses rt_first_west Month [books] = []" by code_simp
  have e: "e_date april_first = Some ''2025-04-01''" by (simp add: april_first_def)
  have f: "filteredExpenses (rt_first_west\<lparr>now := 1743433200000\<rparr>) Month [april_first] = [april_first]" by code_simp
  show ?thesis using a b c d e f by simp
qed

section \<open>Editing a row\<close>

lemma filter_select_all:
  "filter P (sql_select_all dbs) = rev (sort_key sort_key_of (filter P (rows dbs)))"
  by (simp add: sql_select_all_def rev_filter [symmetric] filter_sort)

text \<open>
  C8. When the form passes the gate, an id is remembered and the store holds exactly one row
  \<open>old\<close> with that id, then after \<open>saveEdit\<close> the reloaded list holds exactly one row with
  that id: \<open>old\<close> with its amount, category and note rewritten, its id and date as before.
  The rows with another id are the same, in the store and in the reloaded list, and the ids
  and dates of the stored rows are unchanged position by position.
\<close>

theorem saveEdit_rewrites_one_row:
  assumes "\<not> isNaN (parseFloat (amount s))" and "\<not> js_le (parseFloat (amount s)) (Fin 0)"
    and "trim (category s) \<noteq> []"
    and "editingId s = Some i" and "i \<noteq> 0"
    and "filter (\<lambda>e. e_id e = i) (rows (db s)) = [old]"
  shows "filter (\<lambda>e. e_id e = i) (expenses (saveEdit s))
           = [old\<lparr>e_amount := parseFloat (amount s), e_category := Some (trim (category s)),
                  e_note := or_null (trim (note_st s))\<rparr>]
         \<and> filter (\<lambda>e. e_id e \<noteq> i) (rows (db (saveEdit s))) = filter (\<lambda>e. e_id e \<noteq> i) (rows (db s))
         \<and> filter (\<lambda>e. e_id e \<noteq> i) (expenses (saveEdit s))
             = filter (\<lambda>e. e_id e \<noteq> i) (sql_select_all (db s))
         \<and> map e_id (rows (db (saveEdit s))) = map e_id (rows (db s))
         \<and> map e_date (rows (db (saveEdit s))) = map e_date (rows (db s))"
proof -
  let ?upd = "\<lambda>e. if e_id e = i
                   then e\<lparr>e_amount := parseFloat (amount s), e_category := Some (trim (category s)),
                          e_note := or_null (trim (note_st s))\<rparr>
                   else e"
  have db': "rows (db (saveEdit s)) = map ?upd (rows (db s))"
    and ex': "expenses (saveEdit s) = sql_select_all (db (saveEdit s))"
    using assms(1-5) by (simp_all add: saveEdit_def Let_def loadExpenses_def sql_update_def)
  have same: "filter (\<lambda>e. e_id e = i) (map ?upd xs) = map ?upd (filter (\<lambda>e. e_id e = i) xs)" for xs
    by (induction xs) auto
  have other: "filter (\<lambda>e. e_id e \<noteq> i) (map ?upd xs) = filter (\<lambda>e. e_id e \<noteq> i) xs" for xs
    by (induction xs) auto
  have "old \<in> set (filter (\<lambda>e. e_id e = i) (rows (db s)))"
    by (simp add: assms(6))
  then have "e_id old = i"
    by simp
  then have one: "filter (\<lambda>e. e_id e = i) (expenses (saveEdit s)) = [?upd old]"
    by (simp add: ex' filter_select_all db' same assms(6))
  have two: "filter (\<lambda>e. e_id e \<noteq> i) (expenses (saveEdit s))
               = filter (\<lambda>e. e_id e \<noteq> i) (sql_select_all (db s))"
    by (simp add: ex' filter_select_all db' other)
  have ids: "map e_id (map ?upd xs) = map e_id xs" for xs
    by (induction xs) auto
  have dates: "map e_date (map ?upd xs) = map e_date xs" for xs
    by (induction xs) auto
  show ?thesis
    using one two \<open>e_id old = i\<close> by (simp add: db' other ids dates)
qed

theorem saveEdit_rewrites_one_row_witness:
  "filter (\<lambda>e. e_id e = 1) (expenses (saveEdit (form ''25.00'' '' Food '' [] (Some 1))))
     = [lunch\<lparr>e_amount := parseFloat ''25.00'', e_category := Some (trim '' Food ''),
              e_note := or_null (trim [])\<rparr>]
   \<and> map e_date (rows (db (saveEdit (form ''25.00'' '' Food '' [] (Some 1)))))
       = map e_date (rows sample_db)"
proof -
  let ?s = "form ''25.00'' '' Food '' [] (Some 1)"
  have p: "parseFloat (amount ?s) = Fin 25"
    by (simp add: form_def parse_simps)
  have h1: "\<not> isNaN (parseFloat (amount ?s))"
    by (simp add: p isNaN_def)
  have h2: "\<not> js_le (parseFloat (amount ?s)) (Fin 0)"
    by (simp add: p)
  have h3: "trim (category ?s) \<noteq> []"
    by (simp add: form_def trim_def is_ws_def)
  have h4: "editingId ?s = Some 1" by (simp add: form_def)
  have h5: "filter (\<lambda>e. e_id e = 1) (rows (db ?s)) = [lunch]"
    by (simp add: form_def sample_db_def lunch_def books_def)
  show ?thesis
    using saveEdit_rewrites_one_row [OF h1 h2 h3 h4 _ h5] by (simp add: form_def)
qed

section \<open>Order of the loaded list\<close>

lemma select_all_sorted:
  "sorted_wrt (\<lambda>a b. e_date b < e_date a \<or> (e_date a = e_date b \<and> e_id b \<le> e_id a))
     (sql_select_all dbs)"
proof -
  have "sorted (map sort_key_of (sort_key sort_key_of (rows dbs)))"
    by (rule sorted_sort_key)
  then have "sorted_wrt (\<lambda>a b. sort_key_of b \<le> sort_key_of a) (sql_select_all dbs)"
    by (simp add: sql_select_all_def sorted_wrt_rev sorted_map)
  then show ?thesis
    by (rule sorted_wrt_mono_rel [rotated]) (auto simp: sort_key_of_def less_eq_prod_def)
qed

lemma select_all_mset: "mset (sql_select_all dbs) = mset (rows dbs)"
  by (simp add: sql_select_all_def)

lemma step_in_sync:
  "expenses s = sql_select_all (db s) \<Longrightarrow> expenses (step rt c s) = sql_select_all (db (step rt c s))"
  by (cases c)
     (auto simp: addExpense_def saveEdit_def cancelEdit_def deleteExpense_def startEditing_def
        loadExpenses_def Let_def split: option.splits)

lemma run_in_sync:
  "expenses s = sql_select_all (db s) \<Longrightarrow> expenses (run cs s) = sql_select_all (db (run cs s))"
  unfolding run_def
  by (induction cs arbitrary: s) (auto simp: step_in_sync)

lemma mount_in_sync: "expenses (mount dbs) = sql_select_all (db (mount dbs))"
  by (simp add: mount_def loadExpenses_def)

text \<open>
  C9. After the first load and any sequence of commands, the loaded list is what the store
  returns for the ordered query: it holds exactly the stored rows, by date descending and,
  for equal dates, by id descending.
\<close>

theorem loaded_list_is_ordered:
  "expenses (run cs (mount dbs)) = sql_select_all (db (run cs (mount dbs)))
   \<and> mset (expenses (run cs (mount dbs))) = mset (rows (db (run cs (mount dbs))))
   \<and> sorted_wrt (\<lambda>a b. e_date b < e_date a \<or> (e_date a = e_date b \<and> e_id b \<le> e_id a))
        (expenses (run cs (mount dbs)))"
  using run_in_sync [OF mount_in_sync, of cs dbs]
  by (simp add: select_all_sorted select_all_mset)

end
